theory Spec2Isabelle
  imports Main "HOL-Library.AList" "HOL-Library.Multiset" "HOL-Library.Char_ord"
begin

section \<open>The URL registry and its validation rules\<close>

text \<open>
  A shallow embedding of the \<^verbatim>\<open>URLService\<close> class and of
  \<^verbatim>\<open>utils/validation.ts\<close>.

  \<^item> A JavaScript string is a \<open>string\<close>: a list of code units, here the code units
    below 256 (ASCII and Latin-1), which is what \<open>char\<close> holds.
  \<^item> A \<^verbatim>\<open>Date\<close> is its number of milliseconds, an \<open>int\<close>.
  \<^item> The service hands out its record objects themselves (\<^verbatim>\<open>getUrlByShortCode\<close>
    and \<^verbatim>\<open>getAllUrls\<close> return them, \<^verbatim>\<open>recordClick\<close> and the sweep mutate them in
    place), so the records live in an explicit store \<open>heap\<close>, and the two indexes hold
    references into it.
  \<^item> A JavaScript \<^verbatim>\<open>Map\<close> keeps its keys in insertion order: it is an association
    list, \<^verbatim>\<open>get\<close> is \<open>map_of\<close>, \<^verbatim>\<open>set\<close> is \<open>AList.update\<close> (an existing key keeps
    its place, a new key goes to the end) and \<^verbatim>\<open>delete\<close> is \<open>AList.delete\<close>.
  \<^item> An exception is an \<open>error\<close> value; every operation returns the state beside
    its result, so that what a failing call leaves behind is stated, not assumed.
  \<^item> The clock and \<^verbatim>\<open>Math.random\<close> are inputs of each operation.
  \<^item> The stored snapshot is what \<^verbatim>\<open>saveToStorage\<close> writes, the records of \<open>urls\<close>;
    it is read back only by the constructor. Storage is taken to work, and the logger,
    which no operation reads, is left out.
\<close>

subsection \<open>Data model\<close>

record ClickEvent =
  click_id :: string
  timestamp :: int
  userAgent :: string
  ipAddress :: string
  referrer :: string
  location :: string

record ShortenedURL =
  url_id :: string
  originalUrl :: string
  shortCode :: string
  shortUrl :: string
  createdAt :: int
  expiresAt :: int
  isActive :: bool
  clickCount :: nat
  clicks :: "ClickEvent list"

type_synonym ref = nat

record state =
  heap :: "ref \<rightharpoonup> ShortenedURL"
  nextRef :: ref
  urls :: "(string \<times> ref) list"
  shortCodeToId :: "(string \<times> string) list"

datatype error = DuplicateShortCode | ConcurrencyLimitExceeded

definition empty_registry :: state where
  "empty_registry = \<lparr>heap = Map.empty, nextRef = 0, urls = [], shortCodeToId = []\<rparr>"

subsection \<open>Number and string helpers\<close>

fun digits :: "nat \<Rightarrow> string" where
  "digits n =
     (if n < 10 then [''0123456789'' ! n]
      else digits (n div 10) @ [''0123456789'' ! (n mod 10)])"

declare digits.simps [simp del]

definition number_string :: "int \<Rightarrow> string" where
  "number_string i = (if i < 0 then ''-'' @ digits (nat (- i)) else digits (nat i))"

definition charAt :: "string \<Rightarrow> nat \<Rightarrow> string" where
  "charAt s i = (if i < length s then [s ! i] else [])"

subsection \<open>The registry\<close>

definition chars :: string where
  "chars = ''abcdefghijklmnopqrstuvwxyzABCDEFGHIJKLMNOPQRSTUVWXYZ0123456789''"

text \<open>
  \<open>rand i\<close> is the value of \<^verbatim>\<open>Math.floor(Math.random() * chars.length)\<close> in round \<open>i\<close>
  of the loop; \<^verbatim>\<open>Math.random()\<close> is below 1, so the platform only gives values
  below 62.
\<close>

fun generate_loop :: "(nat \<Rightarrow> nat) \<Rightarrow> nat \<Rightarrow> nat \<Rightarrow> string \<Rightarrow> string" where
  "generate_loop rand i 0 result = result"
| "generate_loop rand i (Suc k) result =
     generate_loop rand (Suc i) k (result @ charAt chars (rand i))"

definition generateShortCode :: "(nat \<Rightarrow> nat) \<Rightarrow> string" where
  "generateShortCode rand = generate_loop rand 0 6 []"

record shorten_env =
  dateNow :: int
  idSuffix :: string
  codeDraws :: "nat \<Rightarrow> nat"
  newDate :: int
  origin :: string

text \<open>\<^verbatim>\<open>customShortCode || this.generateShortCode()\<close>: undefined and the empty string are falsy.\<close>

definition resolveShortCode :: "string option \<Rightarrow> (nat \<Rightarrow> nat) \<Rightarrow> string" where
  "resolveShortCode customShortCode rand =
     (case customShortCode of
        None \<Rightarrow> generateShortCode rand
      | Some c \<Rightarrow> if c = [] then generateShortCode rand else c)"

definition derefActive :: "(ref \<rightharpoonup> ShortenedURL) \<Rightarrow> ref \<Rightarrow> bool" where
  "derefActive h r = (case h r of None \<Rightarrow> False | Some u \<Rightarrow> isActive u)"

definition activeUrls :: "state \<Rightarrow> ref list" where
  "activeUrls s = filter (derefActive (heap s)) (map snd (urls s))"

definition shortenUrl ::
  "state \<Rightarrow> shorten_env \<Rightarrow> string \<Rightarrow> string option \<Rightarrow> int \<Rightarrow> (error + ref) \<times> state" where
  "shortenUrl s env original customShortCode expiryMinutes =
     (let ident = ''url_'' @ number_string (dateNow env) @ ''_'' @ idSuffix env;
          code = resolveShortCode customShortCode (codeDraws env)
      in if map_of (shortCodeToId s) code \<noteq> None then (Inl DuplicateShortCode, s)
         else if length (activeUrls s) \<ge> 5 then (Inl ConcurrencyLimitExceeded, s)
         else
           let now = newDate env;
               shortenedUrl = \<lparr>url_id = ident, originalUrl = original, shortCode = code,
                 shortUrl = origin env @ ''/'' @ code, createdAt = now,
                 expiresAt = now + expiryMinutes * 60 * 1000, isActive = True,
                 clickCount = 0, clicks = []\<rparr>;
               r = nextRef s
           in (Inr r,
               s\<lparr>heap := (heap s)(r \<mapsto> shortenedUrl), nextRef := Suc r,
                 urls := AList.update ident r (urls s),
                 shortCodeToId := AList.update code ident (shortCodeToId s)\<rparr>))"

text \<open>
  A reference held by \<open>urls\<close> always points at a record, so the \<open>None\<close> case of the
  store below is never taken; it stands with the \<^verbatim>\<open>!url\<close> test.
\<close>

definition getUrlByShortCode :: "state \<Rightarrow> int \<Rightarrow> string \<Rightarrow> ref option" where
  "getUrlByShortCode s now code =
     (case map_of (shortCodeToId s) code of
        None \<Rightarrow> None
      | Some ident \<Rightarrow>
          if ident = [] then None
          else (case map_of (urls s) ident of
                  None \<Rightarrow> None
                | Some r \<Rightarrow>
                    (case heap s r of
                       None \<Rightarrow> None
                     | Some u \<Rightarrow> if \<not> isActive u \<or> expiresAt u < now then None else Some r)))"

record click_env =
  lookupDate :: int
  clickDateNow :: int
  clickSuffix :: string
  clickDate :: int

definition recordClick ::
  "state \<Rightarrow> click_env \<Rightarrow> string \<Rightarrow> string \<Rightarrow> string \<Rightarrow> bool \<times> state" where
  "recordClick s env code agent refr =
     (case getUrlByShortCode s (lookupDate env) code of
        None \<Rightarrow> (False, s)
      | Some r \<Rightarrow>
          (case heap s r of
             None \<Rightarrow> (False, s)
           | Some u \<Rightarrow>
               let clickEvent = \<lparr>click_id = ''click_'' @ number_string (clickDateNow env)
                                    @ ''_'' @ clickSuffix env,
                     timestamp = clickDate env, userAgent = agent,
                     ipAddress = ''xxx.xxx.xxx.xxx'', referrer = refr,
                     location = ''Hyderabad/Secunderabad''\<rparr>
               in (True,
                   s\<lparr>heap := (heap s)(r \<mapsto> u\<lparr>clicks := clicks u @ [clickEvent],
                                                clickCount := Suc (clickCount u)\<rparr>)\<rparr>)))"

text \<open>
  The sweep walks the entries of \<open>urls\<close> and flips the flag of each expired, active
  record in place; it counts the flips (the count only decides whether the snapshot is
  saved and logged).
\<close>

fun cleanup_loop ::
  "int \<Rightarrow> (string \<times> ref) list \<Rightarrow> (ref \<rightharpoonup> ShortenedURL) \<Rightarrow> nat
     \<Rightarrow> (ref \<rightharpoonup> ShortenedURL) \<times> nat" where
  "cleanup_loop now [] h cleanedCount = (h, cleanedCount)"
| "cleanup_loop now ((ident, r) # es) h cleanedCount =
     (case h r of
        None \<Rightarrow> cleanup_loop now es h cleanedCount
      | Some u \<Rightarrow>
          if expiresAt u < now \<and> isActive u
          then cleanup_loop now es (h(r \<mapsto> u\<lparr>isActive := False\<rparr>)) (Suc cleanedCount)
          else cleanup_loop now es h cleanedCount)"

definition cleanupExpiredUrls :: "state \<Rightarrow> int \<Rightarrow> state" where
  "cleanupExpiredUrls s now = s\<lparr>heap := fst (cleanup_loop now (urls s) (heap s) 0)\<rparr>"

text \<open>
  \<^verbatim>\<open>Array.prototype.sort\<close> is stable, and the comparator is called as \<open>cmp a b\<close>,
  a negative or zero result keeping \<open>a\<close> before \<open>b\<close>: a stable insertion sort.
\<close>

fun insertBy :: "('a \<Rightarrow> 'a \<Rightarrow> int) \<Rightarrow> 'a \<Rightarrow> 'a list \<Rightarrow> 'a list" where
  "insertBy cmp x [] = [x]"
| "insertBy cmp x (y # ys) = (if cmp x y \<le> 0 then x # y # ys else y # insertBy cmp x ys)"

definition array_sort :: "('a \<Rightarrow> 'a \<Rightarrow> int) \<Rightarrow> 'a list \<Rightarrow> 'a list" where
  "array_sort cmp xs = foldr (insertBy cmp) xs []"

definition compareCreated :: "(ref \<rightharpoonup> ShortenedURL) \<Rightarrow> ref \<Rightarrow> ref \<Rightarrow> int" where
  "compareCreated h a b =
     (case (h a, h b) of (Some x, Some y) \<Rightarrow> createdAt y - createdAt x | _ \<Rightarrow> 0)"

definition getAllUrls :: "state \<Rightarrow> ref list" where
  "getAllUrls s = array_sort (compareCreated (heap s)) (map snd (urls s))"

text \<open>
  \<open>getAllUrls\<close> above is the content of the result. The result itself is an array
  object, made by \<^verbatim>\<open>Array.from\<close>, sorted in place and handed to the caller, who may
  change it. Arrays therefore have a store of their own, beside the registry:
  \<open>getAllUrlsArray\<close> is the method as the caller sees it, returning the address of the
  new array. The service keeps no array in its fields, so its operations are functions
  of the \<open>registry\<close> component alone.
\<close>

record world =
  registry :: state
  arrays :: "nat \<rightharpoonup> ref list"
  nextArray :: nat

definition getAllUrlsArray :: "world \<Rightarrow> nat \<times> world" where
  "getAllUrlsArray w =
     (let a = nextArray w
      in (a, w\<lparr>arrays := (arrays w)(a \<mapsto> getAllUrls (registry w)), nextArray := Suc a\<rparr>))"

definition deleteUrl :: "state \<Rightarrow> string \<Rightarrow> bool \<times> state" where
  "deleteUrl s ident =
     (case map_of (urls s) ident of
        None \<Rightarrow> (False, s)
      | Some r \<Rightarrow>
          (case heap s r of
             None \<Rightarrow> (False, s)
           | Some u \<Rightarrow>
               (True, s\<lparr>urls := AList.delete ident (urls s),
                        shortCodeToId := AList.delete (shortCode u) (shortCodeToId s)\<rparr>)))"

text \<open>
  \<^verbatim>\<open>saveToStorage\<close> writes the records of \<open>urls\<close>, in the order of the map.
  The constructor starts from empty maps and runs \<^verbatim>\<open>loadFromStorage\<close>: with nothing
  stored the registry stays empty, otherwise each stored record becomes a new object,
  entered under its own \<open>id\<close> and \<open>shortCode\<close>.
\<close>

definition storedUrls :: "state \<Rightarrow> ShortenedURL list" where
  "storedUrls s = List.map_filter (heap s) (map snd (urls s))"

fun load_loop :: "ShortenedURL list \<Rightarrow> state \<Rightarrow> state" where
  "load_loop [] s = s"
| "load_loop (u # us) s =
     load_loop us
       (s\<lparr>heap := (heap s)(nextRef s \<mapsto> u), nextRef := Suc (nextRef s),
          urls := AList.update (url_id u) (nextRef s) (urls s),
          shortCodeToId := AList.update (shortCode u) (url_id u) (shortCodeToId s)\<rparr>)"

definition loadFromStorage :: "ShortenedURL list option \<Rightarrow> state" where
  "loadFromStorage stored =
     (case stored of None \<Rightarrow> empty_registry | Some urlsArray \<Rightarrow> load_loop urlsArray empty_registry)"

subsection \<open>Registry states\<close>

text \<open>
  The registry starts empty and changes only through its operations, the sweep, and a
  restart that loads what an earlier state has stored: these are the \<open>reachable\<close>
  states. In each of them \<open>registry_inv\<close> holds: the references of \<open>urls\<close> point at
  records, identifiers are not empty, and at most five records have the active flag.
\<close>

definition index_inv :: "state \<Rightarrow> bool" where
  "index_inv s \<longleftrightarrow>
     (\<forall>(ident, r) \<in> set (urls s). r < nextRef s \<and> (\<exists>u. heap s r = Some u \<and> url_id u \<noteq> []))
     \<and> (\<forall>(code, ident) \<in> set (shortCodeToId s). ident \<noteq> [])"

definition registry_inv :: "state \<Rightarrow> bool" where
  "registry_inv s \<longleftrightarrow> index_inv s \<and> length (activeUrls s) \<le> 5"

text \<open>Array addresses are given out in order: none at or beyond \<open>nextArray\<close> is in use.\<close>

definition arrays_inv :: "world \<Rightarrow> bool" where
  "arrays_inv w \<longleftrightarrow> (\<forall>b. nextArray w \<le> b \<longrightarrow> arrays w b = None)"

inductive reachable :: "state \<Rightarrow> bool" where
  init: "reachable empty_registry"
| shorten: "reachable s \<Longrightarrow> reachable (snd (shortenUrl s env original custom ttl))"
| click: "reachable s \<Longrightarrow> reachable (snd (recordClick s cenv code agent refr))"
| sweep: "reachable s \<Longrightarrow> reachable (cleanupExpiredUrls s now)"
| delete: "reachable s \<Longrightarrow> reachable (snd (deleteUrl s ident))"
| reload: "reachable s \<Longrightarrow> reachable (loadFromStorage (Some (storedUrls s)))"

subsection \<open>Notions used in the properties\<close>

text \<open>
  \<open>recordOf\<close> is the record a short code stands for: the code's entry in
  \<open>shortCodeToId\<close>, followed through \<open>urls\<close>. \<open>liveUrls\<close> are the records that are
  active and not yet expired at a given time. \<open>deactivate\<close> is what the sweep does to
  one record. \<open>createdOf\<close> reads the creation time behind a reference.
\<close>

definition recordOf :: "state \<Rightarrow> string \<Rightarrow> ref option" where
  "recordOf s code =
     (case map_of (shortCodeToId s) code of None \<Rightarrow> None | Some ident \<Rightarrow> map_of (urls s) ident)"

definition liveUrls :: "state \<Rightarrow> int \<Rightarrow> ref list" where
  "liveUrls s now =
     filter (\<lambda>r. case heap s r of None \<Rightarrow> False | Some u \<Rightarrow> isActive u \<and> now < expiresAt u)
       (map snd (urls s))"

definition deactivate :: "int \<Rightarrow> ShortenedURL \<Rightarrow> ShortenedURL" where
  "deactivate now u = (if expiresAt u < now \<and> isActive u then u\<lparr>isActive := False\<rparr> else u)"

definition createdOf :: "(ref \<rightharpoonup> ShortenedURL) \<Rightarrow> ref \<Rightarrow> int" where
  "createdOf h r = (case h r of None \<Rightarrow> 0 | Some u \<Rightarrow> createdAt u)"

text \<open>A caller's assignment \<^verbatim>\<open>record.isActive = b\<close> to a record object it was handed.\<close>

definition assign_isActive :: "ref \<Rightarrow> bool \<Rightarrow> state \<Rightarrow> state" where
  "assign_isActive r b s =
     (case heap s r of
        None \<Rightarrow> s
      | Some u \<Rightarrow> s\<lparr>heap := (heap s)(r \<mapsto> u\<lparr>isActive := b\<rparr>)\<rparr>)"

text \<open>
  A caller's change of an array it holds (\<^verbatim>\<open>push\<close>, \<^verbatim>\<open>pop\<close>, \<^verbatim>\<open>reverse\<close>,
  \<^verbatim>\<open>sort\<close>, \<^verbatim>\<open>splice\<close>, an assignment to an index or to \<^verbatim>\<open>length\<close>): the
  array at that address gets a new content.
\<close>

definition assign_array :: "nat \<Rightarrow> ref list \<Rightarrow> world \<Rightarrow> world" where
  "assign_array a xs w =
     (case arrays w a of None \<Rightarrow> w | Some old \<Rightarrow> w\<lparr>arrays := (arrays w)(a \<mapsto> xs)\<rparr>)"

subsection \<open>Strings and regular expressions\<close>

text \<open>
  \<^verbatim>\<open>toLowerCase\<close> on code units below 256: the letters A to Z and the Latin-1
  capitals (0xC0 to 0xDE without the multiplication sign 0xD7) move up by 32, which
  sets one bit of the code unit.
\<close>

definition lowerChar :: "char \<Rightarrow> char" where
  "lowerChar c =
     (let n = (of_char c :: nat)
      in if (65 \<le> n \<and> n \<le> 90) \<or> (192 \<le> n \<and> n \<le> 222 \<and> n \<noteq> 215)
         then (case c of Char b0 b1 b2 b3 b4 b5 b6 b7 \<Rightarrow> Char b0 b1 b2 b3 b4 True b6 b7)
         else c)"

definition toLowerCase :: "string \<Rightarrow> string" where
  "toLowerCase s = map lowerChar s"

text \<open>
  \<^verbatim>\<open>trim\<close> removes white space and line terminators from both ends; below 256
  these are tab, line feed, vertical tab, form feed, carriage return, space and the
  no-break space.
\<close>

definition whiteSpace :: "char \<Rightarrow> bool" where
  "whiteSpace c =
     (c \<in> set [CHR 0x09, CHR 0x0A, CHR 0x0B, CHR 0x0C, CHR 0x0D, CHR 0x20, CHR 0xA0])"

definition trim :: "string \<Rightarrow> string" where
  "trim s = rev (dropWhile whiteSpace (rev (dropWhile whiteSpace s)))"

text \<open>
  \<^verbatim>\<open>/literal/i.test(s)\<close>: the literal occurs somewhere in \<open>s\<close>, letters compared
  without case. The patterns used are ASCII, where the case folding of the \<^verbatim>\<open>i\<close> flag
  identifies exactly a letter and its other case.
\<close>

fun matchesAt :: "string \<Rightarrow> string \<Rightarrow> bool" where
  "matchesAt [] s = True"
| "matchesAt (p # ps) [] = False"
| "matchesAt (p # ps) (c # cs) = (lowerChar p = lowerChar c \<and> matchesAt ps cs)"

fun testIgnoreCase :: "string \<Rightarrow> string \<Rightarrow> bool" where
  "testIgnoreCase pat [] = matchesAt pat []"
| "testIgnoreCase pat (c # cs) = (matchesAt pat (c # cs) \<or> testIgnoreCase pat cs)"

text \<open>\<^verbatim>\<open>/^[a-zA-Z0-9_-]+$/.test(s)\<close>: one or more characters, all of the class.\<close>

definition codeChar :: "char \<Rightarrow> bool" where
  "codeChar c =
     (c \<in> set ''abcdefghijklmnopqrstuvwxyzABCDEFGHIJKLMNOPQRSTUVWXYZ0123456789_-'')"

definition testCodeChars :: "string \<Rightarrow> bool" where
  "testCodeChars s = (s \<noteq> [] \<and> list_all codeChar s)"

subsection \<open>Validation\<close>

record ValidationResult =
  isValid :: bool
  errors :: "string list"

definition maliciousPatterns :: "string list" where
  "maliciousPatterns = [''javascript:'', ''data:'', ''vbscript:'', ''file:'']"

text \<open>
  The \<^verbatim>\<open>URL\<close> constructor belongs to the platform, not to the repository:
  \<open>validateUrl\<close> takes it as the parameter \<open>urlCtor\<close>, which gives the
  \<^verbatim>\<open>protocol\<close> of the parsed URL, or \<open>None\<close> where the constructor throws.
\<close>

definition validateUrl :: "(string \<Rightarrow> string option) \<Rightarrow> string \<Rightarrow> ValidationResult" where
  "validateUrl urlCtor url =
     (let errs =
        (if trim url = [] then [''URL is required'']
         else (case urlCtor url of
                 None \<Rightarrow> [''Invalid URL format'']
               | Some protocol \<Rightarrow>
                   (if protocol \<notin> set [''http:'', ''https:'']
                    then [''URL must use HTTP or HTTPS protocol''] else [])
                 @ (if list_ex (\<lambda>pattern. testIgnoreCase pattern url) maliciousPatterns
                    then [''URL contains potentially malicious content''] else [])))
      in \<lparr>isValid = (length errs = 0), errors = errs\<rparr>)"

definition reservedWords :: "string list" where
  "reservedWords = [''admin'', ''api'', ''www'', ''app'', ''stats'', ''analytics'']"

definition validateShortCode :: "string \<Rightarrow> ValidationResult" where
  "validateShortCode code =
     (let errs =
        (if trim code \<noteq> [] then
           (if length code < 3 \<or> length code > 20
            then [''Short code must be between 3 and 20 characters''] else [])
         @ (if \<not> testCodeChars code
            then [''Short code can only contain letters, numbers, hyphens, and underscores'']
            else [])
         @ (if toLowerCase code \<in> set reservedWords
            then [''Short code cannot use reserved words''] else [])
         else [])
      in \<lparr>isValid = (length errs = 0), errors = errs\<rparr>)"

definition validateExpiryMinutes :: "int \<Rightarrow> ValidationResult" where
  "validateExpiryMinutes minutes =
     (let errs = (if minutes < 1 then [''Expiry time must be at least 1 minute''] else [])
               @ (if minutes > 43200 then [''Expiry time cannot exceed 30 days''] else [])
      in \<lparr>isValid = (length errs = 0), errors = errs\<rparr>)"

text \<open>
  For the examples, the first steps of the platform's URL parser as the URL Standard
  gives them, for a call without a base URL. It strips control characters and spaces from
  both ends, drops tabs and newlines, and reads the scheme: a letter, then letters,
  digits, \<open>+\<close>, \<open>-\<close> and \<open>.\<close> up to a colon. Without a scheme the constructor
  throws (\<open>None\<close>). What follows the colon is not parsed here, so this function is
  used only on inputs whose remainder the platform accepts, or which have no scheme.
\<close>

definition c0ControlOrSpace :: "char \<Rightarrow> bool" where
  "c0ControlOrSpace c = ((of_char c :: nat) \<le> 32)"

definition tabOrNewline :: "char \<Rightarrow> bool" where
  "tabOrNewline c = (c \<in> set [CHR 0x09, CHR 0x0A, CHR 0x0D])"

definition asciiAlpha :: "char \<Rightarrow> bool" where
  "asciiAlpha c = (c \<in> set ''abcdefghijklmnopqrstuvwxyzABCDEFGHIJKLMNOPQRSTUVWXYZ'')"

definition schemeChar :: "char \<Rightarrow> bool" where
  "schemeChar c = (asciiAlpha c \<or> c \<in> set ''0123456789+-.'')"

fun schemeState :: "string \<Rightarrow> string \<Rightarrow> string option" where
  "schemeState buffer [] = None"
| "schemeState buffer (c # cs) =
     (if schemeChar c then schemeState (buffer @ [lowerChar c]) cs
      else if c = CHR '':'' then Some (buffer @ '':'')
      else None)"

definition urlProtocol :: "string \<Rightarrow> string option" where
  "urlProtocol input =
     (case filter (\<lambda>c. \<not> tabOrNewline c)
             (rev (dropWhile c0ControlOrSpace (rev (dropWhile c0ControlOrSpace input)))) of
        [] \<Rightarrow> None
      | c # cs \<Rightarrow> if asciiAlpha c then schemeState [lowerChar c] cs else None)"

subsection \<open>Example inputs\<close>

definition env_a :: shorten_env where
  "env_a = \<lparr>dateNow = 1000, idSuffix = ''k3j9x0q2m'', codeDraws = (\<lambda>i. 7 * i),
            newDate = 1000, origin = ''http://localhost:5173''\<rparr>"

definition env_b :: shorten_env where
  "env_b = \<lparr>dateNow = 2000, idSuffix = ''p0o9i8u7y'', codeDraws = (\<lambda>i. 5 * i + 3),
            newDate = 2000, origin = ''http://localhost:5173''\<rparr>"

definition state_abc :: state where
  "state_abc = snd (shortenUrl empty_registry env_a ''https://x.com'' (Some ''abc'') 30)"

definition click_a :: click_env where
  "click_a = \<lparr>lookupDate = 5000, clickDateNow = 5000, clickSuffix = ''a1b2c3d4e'', clickDate = 5001\<rparr>"

definition env_at :: "int \<Rightarrow> shorten_env" where
  "env_at t = \<lparr>dateNow = t, idSuffix = ''z9y8x7w6v'', codeDraws = (\<lambda>i. 7 * i),
               newDate = t, origin = ''http://localhost:5173''\<rparr>"

definition shorten_all :: "state \<Rightarrow> (int \<times> string) list \<Rightarrow> state" where
  "shorten_all s0 reqs =
     foldl (\<lambda>s (t, code). snd (shortenUrl s (env_at t) ''https://example.com'' (Some code) 30))
       s0 reqs"

definition state_five :: state where
  "state_five = shorten_all empty_registry
     [(1000, ''one''), (2000, ''two''), (3000, ''three''), (4000, ''four''), (5000, ''five'')]"

definition state_a :: state where
  "state_a = snd (shortenUrl empty_registry env_a ''https://example.com/a'' None 1)"

definition state_two :: state where
  "state_two = shorten_all empty_registry [(1000, ''old''), (2000, ''new'')]"

definition world_two :: world where
  "world_two = \<lparr>registry = state_two, arrays = Map.empty, nextArray = 0\<rparr>"

text \<open>Five records of one minute each, created in the first five seconds.\<close>

definition state_expired :: state where
  "state_expired =
     foldl (\<lambda>s (t, code). snd (shortenUrl s (env_at t) ''https://example.com'' (Some code) 1))
       empty_registry
       [(1000, ''one''), (2000, ''two''), (3000, ''three''), (4000, ''four''), (5000, ''five'')]"

section \<open>Properties\<close>

subsection \<open>Association lists and the invariant\<close>

lemma set_update_subset: "set (AList.update k v al) \<subseteq> insert (k, v) (set al)"
  by (induction al) auto

lemma set_delete_subset: "set (AList.delete k al) \<subseteq> set al"
  by (induction al) auto

lemma filter_update_same_le:
  "length (filter P (map snd (AList.update k v al))) \<le> Suc (length (filter P (map snd al)))"
  by (induction al) auto

lemma filter_update_le:
  assumes "\<And>x. x \<in> snd ` set al \<Longrightarrow> P' x = P x"
  shows "length (filter P' (map snd (AList.update k v al))) \<le> Suc (length (filter P (map snd al)))"
proof -
  have "filter P' (map snd al) = filter P (map snd al)"
    by (rule filter_cong) (use assms in auto)
  with filter_update_same_le [of P' k v al] show ?thesis by simp
qed

lemma filter_delete_le:
  "length (filter P (map snd (AList.delete k al))) \<le> length (filter P (map snd al))"
  by (induction al) auto

lemma filter_mono_le:
  "(\<And>x. x \<in> set xs \<Longrightarrow> P' x \<Longrightarrow> P x) \<Longrightarrow> length (filter P' xs) \<le> length (filter P xs)"
  by (induction xs) auto

lemma cleanup_loop_heap:
  "fst (cleanup_loop now es h n) =
     (\<lambda>r. if r \<in> snd ` set es then map_option (deactivate now) (h r) else h r)"
proof (induction es arbitrary: h n)
  case Nil
  then show ?case by simp
next
  case (Cons e es)
  show ?case
    by (cases e) (auto simp: Cons.IH fun_eq_iff deactivate_def split: option.splits)
qed

lemma filter_update_count:
  assumes "\<And>x. x \<in> snd ` set al \<Longrightarrow> P' x = P x"
  shows "length (filter P' (map snd (AList.update k v al)))
           \<le> (if P' v then 1 else 0) + length (filter P (map snd al))"
proof -
  have eq: "filter P' (map snd al) = filter P (map snd al)"
    by (rule filter_cong) (use assms in auto)
  have "length (filter P' (map snd (AList.update k v al)))
          \<le> (if P' v then 1 else 0) + length (filter P' (map snd al))"
    by (induction al) auto
  with eq show ?thesis by simp
qed

text \<open>Entering a new object under an identifier and a code, as both
  \<open>shortenUrl\<close> and \<open>loadFromStorage\<close> do.\<close>

lemma enter_record:
  assumes inv: "index_inv s" and ne: "url_id u \<noteq> []"
    and s': "s' = s\<lparr>heap := (heap s)(nextRef s \<mapsto> u), nextRef := Suc (nextRef s),
                    urls := AList.update (url_id u) (nextRef s) (urls s),
                    shortCodeToId := AList.update code (url_id u) (shortCodeToId s)\<rparr>"
  shows "index_inv s'"
    and "length (activeUrls s') \<le> (if isActive u then 1 else 0) + length (activeUrls s)"
proof -
  let ?r = "nextRef s"
  from inv have old: "\<And>i r. (i, r) \<in> set (urls s) \<Longrightarrow>
      r < nextRef s \<and> (\<exists>v. heap s r = Some v \<and> url_id v \<noteq> [])"
    and ids: "\<And>c i. (c, i) \<in> set (shortCodeToId s) \<Longrightarrow> i \<noteq> []"
    by (auto simp: index_inv_def)
  have 1: "\<forall>(i, r) \<in> set (urls s').
             r < nextRef s' \<and> (\<exists>v. heap s' r = Some v \<and> url_id v \<noteq> [])"
  proof (clarify)
    fix i r assume "(i, r) \<in> set (urls s')"
    then have "r = ?r \<or> (i, r) \<in> set (urls s)"
      using set_update_subset [of "url_id u" ?r "urls s"] by (auto simp: s')
    then show "r < nextRef s' \<and> (\<exists>v. heap s' r = Some v \<and> url_id v \<noteq> [])"
    proof
      assume "r = ?r" then show ?thesis using ne by (simp add: s')
    next
      assume "(i, r) \<in> set (urls s)"
      then have "r < nextRef s" "\<exists>v. heap s r = Some v \<and> url_id v \<noteq> []" using old by auto
      then show ?thesis by (simp add: s')
    qed
  qed
  have 2: "\<forall>(c, i) \<in> set (shortCodeToId s'). i \<noteq> []"
  proof (clarify)
    fix c assume "(c, []) \<in> set (shortCodeToId s')"
    then have "(c, []) = (code, url_id u) \<or> (c, []) \<in> set (shortCodeToId s)"
      using set_update_subset [of code "url_id u" "shortCodeToId s"] by (auto simp: s')
    then show False using ids [of c "[]"] ne by auto
  qed
  show "index_inv s'" using 1 2 by (simp add: index_inv_def)
  have same: "\<And>x. x \<in> snd ` set (urls s) \<Longrightarrow> derefActive (heap s') x = derefActive (heap s) x"
  proof -
    fix x assume "x \<in> snd ` set (urls s)"
    then have "x < nextRef s" using old by auto
    then show "derefActive (heap s') x = derefActive (heap s) x"
      by (simp add: derefActive_def s')
  qed
  have "length (filter (derefActive (heap s')) (map snd (AList.update (url_id u) ?r (urls s))))
          \<le> (if derefActive (heap s') ?r then 1 else 0)
             + length (filter (derefActive (heap s)) (map snd (urls s)))"
    by (rule filter_update_count) (rule same)
  then show "length (activeUrls s') \<le> (if isActive u then 1 else 0) + length (activeUrls s)"
    by (simp add: activeUrls_def s' derefActive_def)
qed

lemma inv_empty: "registry_inv empty_registry"
  by (simp add: registry_inv_def index_inv_def empty_registry_def activeUrls_def)

lemma inv_shorten:
  assumes "registry_inv s"
  shows "registry_inv (snd (shortenUrl s env original custom ttl))"
proof (cases "map_of (shortCodeToId s) (resolveShortCode custom (codeDraws env)) \<noteq> None
              \<or> length (activeUrls s) \<ge> 5")
  case True
  then show ?thesis using assms by (auto simp: shortenUrl_def Let_def)
next
  case False
  let ?ident = "''url_'' @ number_string (dateNow env) @ ''_'' @ idSuffix env"
  let ?code = "resolveShortCode custom (codeDraws env)"
  let ?u = "\<lparr>url_id = ?ident, originalUrl = original, shortCode = ?code,
       shortUrl = origin env @ ''/'' @ ?code, createdAt = newDate env,
       expiresAt = newDate env + ttl * 60 * 1000, isActive = True,
       clickCount = 0, clicks = []\<rparr>"
  let ?s' = "snd (shortenUrl s env original custom ttl)"
  have s': "?s' = s\<lparr>heap := (heap s)(nextRef s \<mapsto> ?u), nextRef := Suc (nextRef s),
                    urls := AList.update (url_id ?u) (nextRef s) (urls s),
                    shortCodeToId := AList.update ?code (url_id ?u) (shortCodeToId s)\<rparr>"
    using False by (simp add: shortenUrl_def Let_def)
  have inv: "index_inv s" using assms by (simp add: registry_inv_def)
  have ne: "url_id ?u \<noteq> []" by simp
  have "length (activeUrls ?s') \<le> (if isActive ?u then 1 else 0) + length (activeUrls s)"
    by (rule enter_record(2) [OF inv ne s'])
  with False have "length (activeUrls ?s') \<le> 5" by simp
  with enter_record(1) [OF inv ne s'] show ?thesis by (simp add: registry_inv_def)
qed

lemma inv_click:
  assumes "registry_inv s"
  shows "registry_inv (snd (recordClick s cenv code agent refr))"
proof (cases "getUrlByShortCode s (lookupDate cenv) code")
  case None
  then show ?thesis using assms by (simp add: recordClick_def)
next
  case (Some r)
  show ?thesis
  proof (cases "heap s r")
    case None
    then show ?thesis using Some assms by (simp add: recordClick_def)
  next
    case (Some u)
    have "derefActive (heap (snd (recordClick s cenv code agent refr))) = derefActive (heap s)"
      using Some \<open>getUrlByShortCode s (lookupDate cenv) code = Some r\<close>
      by (auto simp: recordClick_def Let_def derefActive_def fun_eq_iff)
    then show ?thesis
      using Some \<open>getUrlByShortCode s (lookupDate cenv) code = Some r\<close> assms
      by (auto simp: registry_inv_def index_inv_def activeUrls_def recordClick_def Let_def)
  qed
qed

lemma inv_sweep:
  assumes "registry_inv s"
  shows "registry_inv (cleanupExpiredUrls s now)"
proof -
  let ?h = "fst (cleanup_loop now (urls s) (heap s) 0)"
  have some: "\<And>r u. heap s r = Some u \<Longrightarrow> \<exists>v. ?h r = Some v \<and> url_id v = url_id u"
    by (simp add: cleanup_loop_heap deactivate_def)
  have act: "\<And>r. derefActive ?h r \<Longrightarrow> derefActive (heap s) r"
    by (auto simp: cleanup_loop_heap derefActive_def deactivate_def split: option.splits if_splits)
  have "length (filter (derefActive ?h) (map snd (urls s)))
          \<le> length (filter (derefActive (heap s)) (map snd (urls s)))"
    by (rule filter_mono_le) (rule act)
  moreover have "index_inv (cleanupExpiredUrls s now)"
    unfolding index_inv_def
  proof (intro conjI; clarify)
    fix i r assume "(i, r) \<in> set (urls (cleanupExpiredUrls s now))"
    then have "(i, r) \<in> set (urls s)" by (simp add: cleanupExpiredUrls_def)
    then obtain u where "r < nextRef s" "heap s r = Some u" "url_id u \<noteq> []"
      using assms by (auto simp: registry_inv_def index_inv_def)
    then show "r < nextRef (cleanupExpiredUrls s now)
        \<and> (\<exists>u. heap (cleanupExpiredUrls s now) r = Some u \<and> url_id u \<noteq> [])"
      using some [of r u] by (auto simp: cleanupExpiredUrls_def)
  next
    fix c assume "(c, []) \<in> set (shortCodeToId (cleanupExpiredUrls s now))"
    then show False
      using assms by (auto simp: registry_inv_def index_inv_def cleanupExpiredUrls_def)
  qed
  ultimately show ?thesis
    using assms by (simp add: registry_inv_def cleanupExpiredUrls_def activeUrls_def)
qed

lemma inv_delete:
  assumes "registry_inv s"
  shows "registry_inv (snd (deleteUrl s ident))"
proof (cases "map_of (urls s) ident")
  case None
  then show ?thesis using assms by (simp add: deleteUrl_def)
next
  case (Some r)
  show ?thesis
  proof (cases "heap s r")
    case None
    then show ?thesis using Some assms by (simp add: deleteUrl_def)
  next
    case (Some u)
    have le: "length (filter (derefActive (heap s)) (map snd (AList.delete ident (urls s))))
            \<le> length (activeUrls s)"
      unfolding activeUrls_def by (rule filter_delete_le)
    show ?thesis
      using Some \<open>map_of (urls s) ident = Some r\<close> assms le
        set_delete_subset [of ident "urls s"] set_delete_subset [of "shortCode u" "shortCodeToId s"]
      by (auto simp: registry_inv_def index_inv_def deleteUrl_def activeUrls_def)
  qed
qed

lemma load_loop_inv:
  assumes "index_inv s" "\<forall>u \<in> set us. url_id u \<noteq> []"
  shows "index_inv (load_loop us s)
         \<and> length (activeUrls (load_loop us s)) \<le> length (filter isActive us) + length (activeUrls s)"
  using assms
proof (induction us arbitrary: s)
  case Nil
  then show ?case by simp
next
  case (Cons u us)
  let ?s1 = "s\<lparr>heap := (heap s)(nextRef s \<mapsto> u), nextRef := Suc (nextRef s),
          urls := AList.update (url_id u) (nextRef s) (urls s),
          shortCodeToId := AList.update (shortCode u) (url_id u) (shortCodeToId s)\<rparr>"
  have ne: "url_id u \<noteq> []" using Cons.prems(2) by simp
  have 1: "index_inv ?s1"
    by (rule enter_record(1) [OF Cons.prems(1) ne]) simp
  have 2: "length (activeUrls ?s1) \<le> (if isActive u then 1 else 0) + length (activeUrls s)"
    by (rule enter_record(2) [OF Cons.prems(1) ne]) simp
  have "index_inv (load_loop us ?s1)
        \<and> length (activeUrls (load_loop us ?s1))
            \<le> length (filter isActive us) + length (activeUrls ?s1)"
    using 1 Cons.prems(2) by (intro Cons.IH) auto
  with 2 show ?case by auto
qed

lemma storedUrls_active:
  "length (filter isActive (List.map_filter h rs)) = length (filter (derefActive h) rs)"
  by (induction rs) (auto simp: List.map_filter_simps derefActive_def split: option.splits)

lemma storedUrls_ids:
  assumes "index_inv s"
  shows "\<forall>u \<in> set (storedUrls s). url_id u \<noteq> []"
proof
  fix u assume "u \<in> set (storedUrls s)"
  then obtain r where "r \<in> snd ` set (urls s)" "heap s r = Some u"
    by (force simp: storedUrls_def List.map_filter_def)
  then show "url_id u \<noteq> []" using assms by (auto simp: index_inv_def)
qed

lemma inv_reload:
  assumes "registry_inv s"
  shows "registry_inv (loadFromStorage (Some (storedUrls s)))"
proof -
  have inv: "index_inv s" and le: "length (activeUrls s) \<le> 5"
    using assms by (simp_all add: registry_inv_def)
  have e: "index_inv empty_registry" "length (activeUrls empty_registry) = 0"
    by (simp_all add: index_inv_def empty_registry_def activeUrls_def)
  have "length (filter isActive (storedUrls s)) = length (activeUrls s)"
    by (simp add: storedUrls_def activeUrls_def storedUrls_active)
  with load_loop_inv [OF e(1) storedUrls_ids [OF inv]] e(2) le show ?thesis
    by (simp add: registry_inv_def loadFromStorage_def)
qed

lemma reachable_inv: "reachable s \<Longrightarrow> registry_inv s"
  by (induction rule: reachable.induct)
     (simp_all add: inv_empty inv_shorten inv_click inv_sweep inv_delete inv_reload)

subsection \<open>Evaluation of identifiers, and shortening followed by lookup\<close>

lemma digits_small: "n < 10 \<Longrightarrow> digits n = [''0123456789'' ! n]"
  by (subst digits.simps) simp

lemma digits_large:
  "10 \<le> n \<Longrightarrow> digits n = digits (n div 10) @ [''0123456789'' ! (n mod 10)]"
  by (subst digits.simps) simp

lemmas eval_number = number_string_def digits_small digits_large

lemma map_of_update_same: "map_of (AList.update k v al) k = Some v"
  by (simp add: update_conv')

text \<open>
  C1, as the code has it. The limit counts the records whose active flag is set,
  expired or not. For a short code that is not registered yet, fewer than five records
  with the active flag and an expiry that passes \<open>validateExpiryMinutes\<close>,
  \<open>shortenUrl\<close> succeeds, and \<open>getUrlByShortCode\<close> on the assigned code right
  afterwards (less than a minute later) returns the new record, whose
  \<open>originalUrl\<close> is the submitted URL and whose \<open>shortCode\<close> is the assigned code.
\<close>

theorem shorten_then_lookup:
  assumes avail: "map_of (shortCodeToId s) (resolveShortCode custom (codeDraws env)) = None"
    and limit: "length (activeUrls s) < 5"
    and ttl: "isValid (validateExpiryMinutes ttl)"
    and soon: "newDate env \<le> now'" "now' < newDate env + 60000"
  shows "\<exists>r s' u. shortenUrl s env original custom ttl = (Inr r, s')
           \<and> getUrlByShortCode s' now' (resolveShortCode custom (codeDraws env)) = Some r
           \<and> heap s' r = Some u
           \<and> originalUrl u = original
           \<and> shortCode u = resolveShortCode custom (codeDraws env)"
proof -
  from ttl have "1 \<le> ttl"
    by (simp add: validateExpiryMinutes_def Let_def split: if_splits)
  with soon have live: "\<not> newDate env + ttl * 60 * 1000 < now'"
    by simp
  show ?thesis
    using avail limit live
    by (simp add: shortenUrl_def getUrlByShortCode_def Let_def map_of_update_same)
qed

theorem shorten_then_lookup_witness:
  "map_of (shortCodeToId empty_registry) (resolveShortCode (Some ''abc'') (codeDraws env_a)) = None
   \<and> length (activeUrls empty_registry) < 5
   \<and> isValid (validateExpiryMinutes 30)
   \<and> newDate env_a \<le> 1001 \<and> 1001 < newDate env_a + 60000
   \<and> (\<exists>r s' u. shortenUrl empty_registry env_a ''https://example.com/a'' (Some ''abc'') 30
                      = (Inr r, s')
         \<and> getUrlByShortCode s' 1001 ''abc'' = Some r
         \<and> heap s' r = Some u
         \<and> originalUrl u = ''https://example.com/a''
         \<and> shortCode u = ''abc'')"
  using shorten_then_lookup [of empty_registry "Some ''abc''" env_a 30 1001
      "''https://example.com/a''"]
  by (simp add: empty_registry_def env_a_def resolveShortCode_def activeUrls_def
      validateExpiryMinutes_def)

lemma state_expired_reachable: "reachable state_expired"
proof -
  have "reachable (foldl (\<lambda>s (t, code).
             snd (shortenUrl s (env_at t) ''https://example.com'' (Some code) 1)) s0 reqs)"
    if "reachable s0" for s0 and reqs :: "(int \<times> string) list"
    using that by (induction reqs arbitrary: s0) (auto intro: reachable.shorten)
  then show ?thesis unfolding state_expired_def using reachable.init by blast
qed

lemma state_expired_eval:
  "shortCodeToId state_expired = [(''one'', ''url_1000_z9y8x7w6v''), (''two'', ''url_2000_z9y8x7w6v''),
       (''three'', ''url_3000_z9y8x7w6v''), (''four'', ''url_4000_z9y8x7w6v''),
       (''five'', ''url_5000_z9y8x7w6v'')]"
  "activeUrls state_expired = [0, 1, 2, 3, 4]"
  "liveUrls state_expired 100000 = []"
  by (simp_all add: state_expired_def shortenUrl_def empty_registry_def env_at_def
      resolveShortCode_def activeUrls_def liveUrls_def derefActive_def Let_def eval_number)

text \<open>
  C1 as stated asks for fewer than five active records, and a record is active when
  its flag is set and its deadline has not passed. Five records of one minute each
  have all expired at 100 seconds, and no sweep has cleared their flags: no record is
  active, the code is free, the expiry is valid, and \<open>shortenUrl\<close> fails with the
  limit error.
\<close>

theorem shorten_then_lookup_counterexample:
  "reachable state_expired
   \<and> length (liveUrls state_expired 100000) = 0
   \<and> map_of (shortCodeToId state_expired)
        (resolveShortCode (Some ''six'') (codeDraws (env_at 100000))) = None
   \<and> isValid (validateExpiryMinutes 30)
   \<and> shortenUrl state_expired (env_at 100000) ''https://example.com/6'' (Some ''six'') 30
       = (Inl ConcurrencyLimitExceeded, state_expired)"
  using state_expired_reachable
  by (simp add: state_expired_eval resolveShortCode_def validateExpiryMinutes_def
      shortenUrl_def Let_def)

subsection \<open>Example states\<close>

lemma state_abc_eval:
  "state_abc = \<lparr>heap = [0 \<mapsto> \<lparr>url_id = ''url_1000_k3j9x0q2m'', originalUrl = ''https://x.com'',
       shortCode = ''abc'', shortUrl = ''http://localhost:5173/abc'', createdAt = 1000,
       expiresAt = 1801000, isActive = True, clickCount = 0, clicks = []\<rparr>],
     nextRef = 1, urls = [(''url_1000_k3j9x0q2m'', 0)],
     shortCodeToId = [(''abc'', ''url_1000_k3j9x0q2m'')]\<rparr>"
  by (simp add: state_abc_def shortenUrl_def empty_registry_def env_a_def resolveShortCode_def
      activeUrls_def Let_def eval_number)

lemma reachable_state_abc: "reachable state_abc"
  unfolding state_abc_def by (intro reachable.intros)

lemma recordOf_inv:
  assumes "registry_inv s" "map_of (shortCodeToId s) code = Some ident"
  shows "ident \<noteq> []"
  using assms map_of_SomeD [of "shortCodeToId s" code ident]
  by (auto simp: registry_inv_def index_inv_def)

lemma urls_inv:
  assumes "registry_inv s" "map_of (urls s) ident = Some r"
  shows "heap s r \<noteq> None"
  using assms map_of_SomeD [of "urls s" ident r]
  by (auto simp: registry_inv_def index_inv_def)

subsection \<open>Lookup\<close>

text \<open>
  C3. In every state the registry reaches, \<open>getUrlByShortCode\<close> returns nothing exactly
  when the code stands for no record, or its record is inactive, or the record's
  \<open>expiresAt\<close> is before the time of the call; otherwise it returns that record.
  The expiry is checked at the call itself, whatever the sweep has done.
\<close>

theorem lookup_absent_iff:
  assumes "reachable s"
  shows "(getUrlByShortCode s now code = None \<longleftrightarrow>
            recordOf s code = None
            \<or> (\<exists>r u. recordOf s code = Some r \<and> heap s r = Some u
                  \<and> (\<not> isActive u \<or> expiresAt u < now)))
         \<and> (getUrlByShortCode s now code \<noteq> None \<longrightarrow>
              getUrlByShortCode s now code = recordOf s code)"
proof -
  have inv: "registry_inv s" using assms by (rule reachable_inv)
  show ?thesis
  proof (cases "map_of (shortCodeToId s) code")
    case None
    then show ?thesis by (simp add: getUrlByShortCode_def recordOf_def)
  next
    case (Some ident)
    then have ne: "ident \<noteq> []" using inv by (rule recordOf_inv [rotated])
    show ?thesis
    proof (cases "map_of (urls s) ident")
      case None
      then show ?thesis using Some ne by (simp add: getUrlByShortCode_def recordOf_def)
    next
      case (Some r)
      then obtain u where "heap s r = Some u" using urls_inv [OF inv Some] by auto
      then show ?thesis
        using Some \<open>map_of (shortCodeToId s) code = Some ident\<close> ne
        by (auto simp: getUrlByShortCode_def recordOf_def)
    qed
  qed
qed

theorem lookup_absent_iff_witness:
  "reachable state_abc
   \<and> getUrlByShortCode state_abc 1001 ''abc'' = Some 0
   \<and> getUrlByShortCode state_abc 1801001 ''abc'' = None
   \<and> getUrlByShortCode state_abc 1001 ''abd'' = None
   \<and> recordOf state_abc ''abc'' = Some 0 \<and> recordOf state_abc ''abd'' = None"
  using lookup_absent_iff [of state_abc 1001 "''abc''"] lookup_absent_iff [of state_abc 1801001 "''abc''"]
    lookup_absent_iff [of state_abc 1001 "''abd''"] reachable_state_abc
  by (simp add: state_abc_eval recordOf_def getUrlByShortCode_def)

subsection \<open>Duplicate codes\<close>

text \<open>
  C4. When the resolved short code (the custom code, or the generated one) is already
  registered, \<open>shortenUrl\<close> fails with \<open>DuplicateShortCode\<close> and the state, both
  indexes included, is what it was. Codes are compared as they are written: after
  \<open>abc\<close> is registered, a second \<open>abc\<close> is refused and \<open>ABC\<close> is accepted.
\<close>

theorem shorten_duplicate:
  assumes "map_of (shortCodeToId s) (resolveShortCode custom (codeDraws env)) \<noteq> None"
  shows "shortenUrl s env original custom ttl = (Inl DuplicateShortCode, s)"
  using assms by (simp add: shortenUrl_def Let_def)

theorem shorten_duplicate_witness:
  "map_of (shortCodeToId state_abc) (resolveShortCode (Some ''abc'') (codeDraws env_b)) \<noteq> None
   \<and> shortenUrl state_abc env_b ''https://y.com'' (Some ''abc'') 30 = (Inl DuplicateShortCode, state_abc)
   \<and> fst (shortenUrl state_abc env_b ''https://y.com'' (Some ''ABC'') 30) = Inr 1"
  using shorten_duplicate [of state_abc "Some ''abc''" env_b "''https://y.com''" 30]
  by (simp add: state_abc_eval resolveShortCode_def shortenUrl_def activeUrls_def derefActive_def Let_def)

subsection \<open>Clicks\<close>

text \<open>
  C5. Where the lookup of the code fails, \<open>recordClick\<close> returns false and the state
  is unchanged. Where the lookup gives a record, \<open>recordClick\<close> returns true and the
  only change is in that record: one click event is appended to \<open>clicks\<close> (masked
  address, fixed location, the current time as time stamp) and \<open>clickCount\<close> goes up
  by one.
\<close>

theorem recordClick_effect:
  "(getUrlByShortCode s (lookupDate env) code = None \<longrightarrow>
      recordClick s env code agent refr = (False, s))
   \<and> (\<forall>r. getUrlByShortCode s (lookupDate env) code = Some r \<longrightarrow>
        (\<exists>u ev. heap s r = Some u
           \<and> recordClick s env code agent refr =
               (True, s\<lparr>heap := (heap s)(r \<mapsto> u\<lparr>clicks := clicks u @ [ev],
                                                  clickCount := Suc (clickCount u)\<rparr>)\<rparr>)
           \<and> ipAddress ev = ''xxx.xxx.xxx.xxx''
           \<and> location ev = ''Hyderabad/Secunderabad''
           \<and> timestamp ev = clickDate env
           \<and> userAgent ev = agent \<and> referrer ev = refr))"
proof (intro conjI impI allI)
  assume "getUrlByShortCode s (lookupDate env) code = None"
  then show "recordClick s env code agent refr = (False, s)"
    by (simp add: recordClick_def)
next
  fix r assume found: "getUrlByShortCode s (lookupDate env) code = Some r"
  then obtain u where u: "heap s r = Some u"
    by (auto simp: getUrlByShortCode_def split: option.splits if_splits)
  let ?ev = "\<lparr>click_id = ''click_'' @ number_string (clickDateNow env) @ ''_'' @ clickSuffix env,
     timestamp = clickDate env, userAgent = agent, ipAddress = ''xxx.xxx.xxx.xxx'',
     referrer = refr, location = ''Hyderabad/Secunderabad''\<rparr>"
  have "recordClick s env code agent refr =
          (True, s\<lparr>heap := (heap s)(r \<mapsto> u\<lparr>clicks := clicks u @ [?ev],
                                             clickCount := Suc (clickCount u)\<rparr>)\<rparr>)"
    using found u by (simp add: recordClick_def Let_def)
  then show "\<exists>u ev. heap s r = Some u
           \<and> recordClick s env code agent refr =
               (True, s\<lparr>heap := (heap s)(r \<mapsto> u\<lparr>clicks := clicks u @ [ev],
                                                  clickCount := Suc (clickCount u)\<rparr>)\<rparr>)
           \<and> ipAddress ev = ''xxx.xxx.xxx.xxx''
           \<and> location ev = ''Hyderabad/Secunderabad''
           \<and> timestamp ev = clickDate env
           \<and> userAgent ev = agent \<and> referrer ev = refr"
    using u by (intro exI [of _ u] exI [of _ ?ev]) simp
qed

theorem recordClick_effect_witness:
  "recordClick state_abc click_a ''nope'' ''Mozilla/5.0'' ''direct'' = (False, state_abc)
   \<and> fst (recordClick state_abc click_a ''abc'' ''Mozilla/5.0'' ''direct'')
   \<and> (\<exists>u. heap (snd (recordClick state_abc click_a ''abc'' ''Mozilla/5.0'' ''direct'')) 0 = Some u
         \<and> clickCount u = 1 \<and> length (clicks u) = 1)"
  using recordClick_effect [of state_abc click_a "''nope''" "''Mozilla/5.0''" "''direct''"]
    recordClick_effect [of state_abc click_a "''abc''" "''Mozilla/5.0''" "''direct''"]
  by (simp add: state_abc_eval getUrlByShortCode_def click_a_def recordClick_def)

lemma generate_loop_length:
  "(\<forall>j<k. rand (i + j) < 62) \<Longrightarrow> length (generate_loop rand i k acc) = length acc + k"
proof (induction k arbitrary: i acc)
  case 0
  then show ?case by simp
next
  case (Suc k)
  have "rand i < 62" using Suc.prems [rule_format, of 0] by simp
  moreover have "\<forall>j<k. rand (Suc i + j) < 62" using Suc.prems by auto
  ultimately show ?case using Suc.IH [of "Suc i" "acc @ charAt chars (rand i)"]
    by (simp add: charAt_def chars_def)
qed

lemma generate_loop_set:
  "(\<forall>j<k. rand (i + j) < 62) \<Longrightarrow> set (generate_loop rand i k acc) \<subseteq> set acc \<union> set chars"
proof (induction k arbitrary: i acc)
  case 0
  then show ?case by simp
next
  case (Suc k)
  have "rand i < length chars" using Suc.prems [rule_format, of 0] by (simp add: chars_def)
  then have "set (charAt chars (rand i)) \<subseteq> set chars" by (simp add: charAt_def)
  moreover have "\<forall>j<k. rand (Suc i + j) < 62" using Suc.prems by auto
  ultimately show ?case using Suc.IH [of "Suc i" "acc @ charAt chars (rand i)"]
    by auto
qed

subsection \<open>The empty custom code\<close>

text \<open>
  C10. \<open>shortenUrl\<close> with the empty string as custom code is \<open>shortenUrl\<close> with no
  custom code: the code is resolved by a truthiness test, so the empty string is never
  registered. The code registered instead is the generated one: six characters, each
  from the alphabet of lower-case letters, upper-case letters and digits (the draws
  being indexes into the alphabet, as the platform gives them).
\<close>

theorem shorten_empty_custom:
  assumes draws: "\<forall>i<6. codeDraws env i < 62"
  shows "shortenUrl s env original (Some []) ttl = shortenUrl s env original None ttl
         \<and> resolveShortCode (Some []) (codeDraws env) = generateShortCode (codeDraws env)
         \<and> length (generateShortCode (codeDraws env)) = 6
         \<and> set (generateShortCode (codeDraws env)) \<subseteq> set chars
         \<and> (\<forall>r s'. shortenUrl s env original (Some []) ttl = (Inr r, s') \<longrightarrow>
               (\<exists>u. heap s' r = Some u \<and> shortCode u = generateShortCode (codeDraws env))
               \<and> map_of (shortCodeToId s') [] = map_of (shortCodeToId s) [])"
proof -
  let ?g = "generateShortCode (codeDraws env)"
  have res: "resolveShortCode (Some []) (codeDraws env) = ?g"
    "resolveShortCode None (codeDraws env) = ?g"
    by (simp_all add: resolveShortCode_def)
  have len: "length ?g = 6"
    using generate_loop_length [of 6 "codeDraws env" 0 "[]"] draws
    by (simp add: generateShortCode_def)
  have sub: "set ?g \<subseteq> set chars"
    using generate_loop_set [of 6 "codeDraws env" 0 "[]"] draws
    by (simp add: generateShortCode_def)
  from len have ne: "?g \<noteq> []" by auto
  have same: "shortenUrl s env original (Some []) ttl = shortenUrl s env original None ttl"
    by (simp add: shortenUrl_def res)
  have post: "\<forall>r s'. shortenUrl s env original (Some []) ttl = (Inr r, s') \<longrightarrow>
               (\<exists>u. heap s' r = Some u \<and> shortCode u = ?g)
               \<and> map_of (shortCodeToId s') [] = map_of (shortCodeToId s) []"
    using ne by (auto simp: shortenUrl_def res Let_def update_conv' split: if_splits)
  show ?thesis using res(1) len sub same post by blast
qed

theorem shorten_empty_custom_witness:
  "shortenUrl empty_registry env_a ''https://example.com/a'' (Some []) 1
     = shortenUrl empty_registry env_a ''https://example.com/a'' None 1
   \<and> resolveShortCode (Some []) (codeDraws env_a) = ''ahovCJ''
   \<and> fst (shortenUrl empty_registry env_a ''https://example.com/a'' (Some []) 1) = Inr 0
   \<and> shortCodeToId (snd (shortenUrl empty_registry env_a ''https://example.com/a'' (Some []) 1))
       = [(''ahovCJ'', ''url_1000_k3j9x0q2m'')]"
proof -
  have d: "\<forall>i<6. codeDraws env_a i < 62" by (simp add: env_a_def)
  have g: "generateShortCode (codeDraws env_a) = ''ahovCJ''"
    by (simp add: env_a_def generateShortCode_def charAt_def chars_def numeral_eq_Suc)
  show ?thesis
    using shorten_empty_custom [OF d, of empty_registry "''https://example.com/a''" 1] g
    by (simp add: shortenUrl_def empty_registry_def activeUrls_def Let_def env_a_def eval_number
        resolveShortCode_def)
qed

lemma shorten_all_reachable: "reachable s0 \<Longrightarrow> reachable (shorten_all s0 reqs)"
  unfolding shorten_all_def
  by (induction reqs arbitrary: s0) (auto intro: reachable.shorten)

lemma state_five_eval:
  "urls state_five = [(''url_1000_z9y8x7w6v'', 0), (''url_2000_z9y8x7w6v'', 1),
       (''url_3000_z9y8x7w6v'', 2), (''url_4000_z9y8x7w6v'', 3), (''url_5000_z9y8x7w6v'', 4)]"
  "shortCodeToId state_five = [(''one'', ''url_1000_z9y8x7w6v''), (''two'', ''url_2000_z9y8x7w6v''),
       (''three'', ''url_3000_z9y8x7w6v''), (''four'', ''url_4000_z9y8x7w6v''),
       (''five'', ''url_5000_z9y8x7w6v'')]"
  "activeUrls state_five = [0, 1, 2, 3, 4]"
  by (simp_all add: state_five_def shorten_all_def shortenUrl_def empty_registry_def env_at_def
      resolveShortCode_def activeUrls_def derefActive_def Let_def eval_number)

lemma liveUrls_le: "length (liveUrls s now) \<le> length (activeUrls s)"
  unfolding liveUrls_def activeUrls_def
  by (rule filter_mono_le) (auto simp: derefActive_def split: option.splits)

subsection \<open>The limit of five active records\<close>

text \<open>
  C2, as the code has it. In every state the registry reaches, at most five records
  have the active flag, so at most five are active and not yet expired, at any time.
  When five records have the flag, \<open>shortenUrl\<close> fails and leaves the state as it was,
  no record being created: with \<open>ConcurrencyLimitExceeded\<close> if the resolved code is
  free, and with \<open>DuplicateShortCode\<close> if the code is registered, since that test
  comes first.
\<close>

theorem active_limit:
  assumes "reachable s"
  shows "length (liveUrls s now) \<le> 5
         \<and> (5 \<le> length (activeUrls s) \<longrightarrow>
              snd (shortenUrl s env original custom ttl) = s
              \<and> fst (shortenUrl s env original custom ttl) =
                  (if map_of (shortCodeToId s) (resolveShortCode custom (codeDraws env)) \<noteq> None
                   then Inl DuplicateShortCode else Inl ConcurrencyLimitExceeded))"
proof -
  have "length (activeUrls s) \<le> 5"
    using reachable_inv [OF assms] by (simp add: registry_inv_def)
  with liveUrls_le [of s now] have "length (liveUrls s now) \<le> 5" by simp
  then show ?thesis by (simp add: shortenUrl_def Let_def)
qed

theorem active_limit_witness:
  "reachable state_five
   \<and> length (liveUrls state_five 6000) = 5
   \<and> length (activeUrls state_five) = 5
   \<and> shortenUrl state_five (env_at 6000) ''https://example.com/6'' (Some ''six'') 30
       = (Inl ConcurrencyLimitExceeded, state_five)"
proof -
  have r: "reachable state_five"
    unfolding state_five_def by (rule shorten_all_reachable) (rule reachable.init)
  have l: "length (liveUrls state_five 6000) = 5"
    by (simp add: liveUrls_def state_five_def shorten_all_def shortenUrl_def empty_registry_def env_at_def
      resolveShortCode_def activeUrls_def derefActive_def Let_def eval_number)
  show ?thesis
    using active_limit [OF r, of 6000 "env_at 6000" "''https://example.com/6''" "Some ''six''" 30] r l
    by (simp add: state_five_eval resolveShortCode_def prod_eq_iff)
qed

text \<open>
  C2 as stated says that \<open>shortenUrl\<close> fails with \<open>ConcurrencyLimitExceeded\<close> whenever
  five records are active. With five active records and a custom code that is already
  registered, the failure is \<open>DuplicateShortCode\<close>.
\<close>

theorem active_limit_counterexample:
  "length (liveUrls state_five 6000) = 5
   \<and> fst (shortenUrl state_five (env_at 6000) ''https://y.com'' (Some ''one'') 30)
       = Inl DuplicateShortCode"
proof -
  have l: "length (liveUrls state_five 6000) = 5"
    by (simp add: liveUrls_def state_five_def shorten_all_def shortenUrl_def empty_registry_def env_at_def
      resolveShortCode_def activeUrls_def derefActive_def Let_def eval_number)
  show ?thesis
    using l by (simp add: shortenUrl_def state_five_eval resolveShortCode_def Let_def)
qed

lemma mset_insertBy: "mset (insertBy cmp x ys) = add_mset x (mset ys)"
  by (induction ys) auto

lemma mset_array_sort: "mset (array_sort cmp xs) = mset xs"
  unfolding array_sort_def by (induction xs) (auto simp: mset_insertBy)

lemma set_array_sort: "set (array_sort cmp xs) = set xs"
  using mset_array_sort [of cmp xs] by (metis set_mset_mset)

lemma sorted_insertBy:
  assumes "\<And>a b. a \<in> insert x (set ys) \<Longrightarrow> b \<in> insert x (set ys) \<Longrightarrow> (cmp a b \<le> 0 \<longleftrightarrow> f b \<le> f a)"
    and "sorted_wrt (\<lambda>a b. (f b :: int) \<le> f a) ys"
  shows "sorted_wrt (\<lambda>a b. f b \<le> f a) (insertBy cmp x ys)"
  using assms
proof (induction ys)
  case Nil
  then show ?case by simp
next
  case (Cons y ys)
  show ?case
  proof (cases "cmp x y \<le> 0")
    case True
    then have "f y \<le> f x" using Cons.prems(1) [of x y] by simp
    then show ?thesis using True Cons.prems(2) by (auto simp: order_trans [of _ "f y" "f x"])
  next
    case False
    then have xy: "f x \<le> f y" using Cons.prems(1) [of x y] by simp
    have "sorted_wrt (\<lambda>a b. f b \<le> f a) (insertBy cmp x ys)"
      using Cons.prems by (intro Cons.IH) auto
    moreover have "\<forall>z \<in> set (insertBy cmp x ys). f z \<le> f y"
      using xy Cons.prems(2) mset_insertBy [of cmp x ys]
      by (metis insert_iff list.simps(15) mset.simps(2) set_mset_mset sorted_wrt.simps(2))
    ultimately show ?thesis using False by simp
  qed
qed

lemma sorted_array_sort:
  assumes "\<And>a b. a \<in> set xs \<Longrightarrow> b \<in> set xs \<Longrightarrow> (cmp a b \<le> 0 \<longleftrightarrow> f b \<le> f a)"
  shows "sorted_wrt (\<lambda>a b. (f b :: int) \<le> f a) (array_sort cmp xs)"
  using assms
proof (induction xs)
  case Nil
  then show ?case by (simp add: array_sort_def)
next
  case (Cons x xs)
  have ih: "sorted_wrt (\<lambda>a b. f b \<le> f a) (array_sort cmp xs)"
    using Cons.prems by (intro Cons.IH) auto
  have "sorted_wrt (\<lambda>a b. f b \<le> f a) (insertBy cmp x (array_sort cmp xs))"
    by (rule sorted_insertBy [OF _ ih]) (use Cons.prems in \<open>auto simp: set_array_sort\<close>)
  then show ?case by (simp add: array_sort_def)
qed

lemma compareCreated_le:
  assumes "h a \<noteq> None" "h b \<noteq> None"
  shows "compareCreated h a b \<le> 0 \<longleftrightarrow> createdOf h b \<le> createdOf h a"
  using assms by (auto simp: compareCreated_def createdOf_def)

subsection \<open>Listing the records\<close>

lemma registry_assign_array: "registry (assign_array b xs w) = registry w"
  by (simp add: assign_array_def split: option.splits)

lemma nextArray_assign_array: "nextArray (assign_array b xs w) = nextArray w"
  by (simp add: assign_array_def split: option.splits)

lemma arrays_inv_assign: "arrays_inv w \<Longrightarrow> arrays_inv (assign_array b xs w)"
  by (auto simp: arrays_inv_def assign_array_def split: option.splits)

lemma arrays_inv_listing: "arrays_inv w \<Longrightarrow> arrays_inv (snd (getAllUrlsArray w))"
  by (auto simp: arrays_inv_def getAllUrlsArray_def Let_def)

text \<open>
  C9, as the code has it. In every state the registry reaches, \<open>getAllUrls\<close> returns
  a new array (its address was not in use) that holds every record of \<open>urls\<close>, active
  or not, each as often as it is held, ordered by \<open>createdAt\<close> with the newest first.
  The call changes no other array and nothing in the registry. Whatever the caller
  then does to this or any other array, the registry state is the same, a lookup
  gives what it gave, and a later listing gives the same records in the same order,
  in another new array. The entries of the array are the registry's own record
  objects, not copies.
\<close>

theorem getAllUrls_sorted:
  assumes "reachable (registry w)" and "arrays_inv w"
  shows "\<exists>a w'. getAllUrlsArray w = (a, w')
           \<and> arrays w a = None
           \<and> arrays w' a = Some (getAllUrls (registry w))
           \<and> (\<forall>b. b \<noteq> a \<longrightarrow> arrays w' b = arrays w b)
           \<and> registry w' = registry w
           \<and> mset (getAllUrls (registry w)) = mset (map snd (urls (registry w)))
           \<and> sorted_wrt (\<lambda>x y. createdOf (heap (registry w)) y \<le> createdOf (heap (registry w)) x)
                (getAllUrls (registry w))
           \<and> (\<forall>r \<in> set (getAllUrls (registry w)). heap (registry w) r \<noteq> None)
           \<and> (\<forall>b xs. registry (assign_array b xs w') = registry w)
           \<and> (\<forall>b xs now code.
                 getUrlByShortCode (registry (assign_array b xs w')) now code
                   = getUrlByShortCode (registry w) now code)
           \<and> (\<forall>b xs. \<exists>a2 w2. getAllUrlsArray (assign_array b xs w') = (a2, w2)
                 \<and> a2 \<noteq> a
                 \<and> arrays w2 a2 = Some (getAllUrls (registry w)))"
proof -
  let ?s = "registry w"
  let ?a = "nextArray w"
  let ?w' = "w\<lparr>arrays := (arrays w)(?a \<mapsto> getAllUrls ?s), nextArray := Suc ?a\<rparr>"
  have inv: "registry_inv ?s" using assms(1) by (rule reachable_inv)
  then have def: "\<And>r. r \<in> set (map snd (urls ?s)) \<Longrightarrow> heap ?s r \<noteq> None"
    by (auto simp: registry_inv_def index_inv_def)
  have srt: "sorted_wrt (\<lambda>x y. createdOf (heap ?s) y \<le> createdOf (heap ?s) x)
          (array_sort (compareCreated (heap ?s)) (map snd (urls ?s)))"
    by (rule sorted_array_sort) (rule compareCreated_le; rule def; assumption)+
  have content: "mset (getAllUrls ?s) = mset (map snd (urls ?s))"
    "sorted_wrt (\<lambda>x y. createdOf (heap ?s) y \<le> createdOf (heap ?s) x) (getAllUrls ?s)"
    "\<forall>r \<in> set (getAllUrls ?s). heap ?s r \<noteq> None"
    using def srt by (simp_all add: getAllUrls_def mset_array_sort set_array_sort)
  have res: "getAllUrlsArray w = (?a, ?w')"
    by (simp add: getAllUrlsArray_def Let_def)
  have fresh: "arrays w ?a = None" using assms(2) by (simp add: arrays_inv_def)
  have alloc: "arrays ?w' ?a = Some (getAllUrls ?s)" "\<forall>b. b \<noteq> ?a \<longrightarrow> arrays ?w' b = arrays w b"
    "registry ?w' = ?s"
    by simp_all
  have frame: "\<forall>b xs. registry (assign_array b xs ?w') = ?s"
    by (simp add: registry_assign_array)
  have look: "\<forall>b xs now code.
                 getUrlByShortCode (registry (assign_array b xs ?w')) now code
                   = getUrlByShortCode ?s now code"
    by (simp add: registry_assign_array)
  have again: "\<forall>b xs. \<exists>a2 w2. getAllUrlsArray (assign_array b xs ?w') = (a2, w2)
                 \<and> a2 \<noteq> ?a
                 \<and> arrays w2 a2 = Some (getAllUrls ?s)"
    by (simp add: getAllUrlsArray_def Let_def registry_assign_array nextArray_assign_array)
  show ?thesis
    using res fresh alloc content frame look again
    by (intro exI [of _ ?a] exI [of _ ?w'] conjI) assumption+
qed

lemma state_two_eval:
  "urls state_two = [(''url_1000_z9y8x7w6v'', 0), (''url_2000_z9y8x7w6v'', 1)]"
  "heap state_two 0 = Some \<lparr>url_id = ''url_1000_z9y8x7w6v'', originalUrl = ''https://example.com'',
       shortCode = ''old'', shortUrl = ''http://localhost:5173/old'', createdAt = 1000,
       expiresAt = 1801000, isActive = True, clickCount = 0, clicks = []\<rparr>"
  "heap state_two (Suc 0) = Some \<lparr>url_id = ''url_2000_z9y8x7w6v'', originalUrl = ''https://example.com'',
       shortCode = ''new'', shortUrl = ''http://localhost:5173/new'', createdAt = 2000,
       expiresAt = 1802000, isActive = True, clickCount = 0, clicks = []\<rparr>"
  by (simp_all add: state_two_def shorten_all_def shortenUrl_def empty_registry_def env_at_def
      resolveShortCode_def activeUrls_def derefActive_def Let_def eval_number)

theorem getAllUrls_sorted_witness:
  "reachable (registry world_two) \<and> arrays_inv world_two
   \<and> fst (getAllUrlsArray world_two) = 0
   \<and> arrays (snd (getAllUrlsArray world_two)) 0 = Some [1, 0]
   \<and> createdOf (heap state_two) 1 = 2000 \<and> createdOf (heap state_two) 0 = 1000
   \<and> registry (assign_array 0 [] (snd (getAllUrlsArray world_two))) = state_two
   \<and> arrays (snd (getAllUrlsArray (assign_array 0 [] (snd (getAllUrlsArray world_two))))) 1
       = Some [1, 0]"
proof -
  have r: "reachable (registry world_two)"
    unfolding world_two_def state_two_def
    by simp (rule shorten_all_reachable, rule reachable.init)
  have i: "arrays_inv world_two"
    by (simp add: arrays_inv_def world_two_def)
  have g: "getAllUrls state_two = [1, 0]"
    by (simp add: getAllUrls_def array_sort_def compareCreated_def state_two_eval)
  show ?thesis
    using getAllUrls_sorted [OF r i] r i g
    by (simp add: getAllUrlsArray_def assign_array_def Let_def world_two_def createdOf_def
        state_two_eval)
qed

text \<open>
  C9 as stated says that changing the records of the returned sequence leaves the
  registry alone. The record returned for \<open>abc\<close> is the one the registry holds: once
  the caller clears its active flag, the registry no longer finds the code.
\<close>

theorem getAllUrls_snapshot_counterexample:
  "getAllUrls state_abc = [0]
   \<and> getUrlByShortCode state_abc 1001 ''abc'' = Some 0
   \<and> getUrlByShortCode (assign_isActive (hd (getAllUrls state_abc)) False state_abc) 1001 ''abc''
       = None"
  by (simp add: getAllUrls_def array_sort_def state_abc_eval getUrlByShortCode_def
      assign_isActive_def)

lemma generateShortCode_unfold:
  "generateShortCode rand =
     charAt chars (rand 0) @ charAt chars (rand 1) @ charAt chars (rand 2)
     @ charAt chars (rand 3) @ charAt chars (rand 4) @ charAt chars (rand 5)"
  by (simp add: generateShortCode_def numeral_eq_Suc)

lemma generate_a: "generateShortCode (codeDraws env_a) = ''ahovCJ''"
  by (simp add: generateShortCode_unfold env_a_def charAt_def chars_def)

lemma state_a_eval:
  "state_a = \<lparr>heap = [0 \<mapsto> \<lparr>url_id = ''url_1000_k3j9x0q2m'',
       originalUrl = ''https://example.com/a'', shortCode = ''ahovCJ'',
       shortUrl = ''http://localhost:5173/ahovCJ'', createdAt = 1000,
       expiresAt = 61000, isActive = True, clickCount = 0, clicks = []\<rparr>],
     nextRef = 1, urls = [(''url_1000_k3j9x0q2m'', 0)],
     shortCodeToId = [(''ahovCJ'', ''url_1000_k3j9x0q2m'')]\<rparr>"
  by (simp add: state_a_def shortenUrl_def empty_registry_def env_a_def resolveShortCode_def
      activeUrls_def Let_def eval_number generate_a [unfolded env_a_def, simplified])

subsection \<open>The sweep\<close>

text \<open>
  C6. One run of the sweep leaves both indexes as they are and changes the records
  only by clearing the active flag of exactly the records of \<open>urls\<close> that are active
  and whose \<open>expiresAt\<close> is before the time of the run. A record it deactivates is
  no longer found by \<open>getUrlByShortCode\<close>, at any time, and is still listed by
  \<open>getAllUrls\<close>, with the flag cleared.
\<close>

theorem sweep_effect:
  "urls (cleanupExpiredUrls s now) = urls s
   \<and> shortCodeToId (cleanupExpiredUrls s now) = shortCodeToId s
   \<and> nextRef (cleanupExpiredUrls s now) = nextRef s
   \<and> (\<forall>r. heap (cleanupExpiredUrls s now) r =
          (case heap s r of
             None \<Rightarrow> None
           | Some u \<Rightarrow>
               if r \<in> snd ` set (urls s) \<and> isActive u \<and> expiresAt u < now
               then Some (u\<lparr>isActive := False\<rparr>) else Some u))
   \<and> (\<forall>code r u t. recordOf s code = Some r \<and> heap s r = Some u
          \<and> isActive u \<and> expiresAt u < now \<longrightarrow>
          getUrlByShortCode (cleanupExpiredUrls s now) t code = None
          \<and> r \<in> set (getAllUrls (cleanupExpiredUrls s now))
          \<and> heap (cleanupExpiredUrls s now) r = Some (u\<lparr>isActive := False\<rparr>))"
proof -
  let ?s' = "cleanupExpiredUrls s now"
  have frame: "urls ?s' = urls s" "shortCodeToId ?s' = shortCodeToId s" "nextRef ?s' = nextRef s"
    by (simp_all add: cleanupExpiredUrls_def)
  have hp: "\<forall>r. heap ?s' r =
          (case heap s r of
             None \<Rightarrow> None
           | Some u \<Rightarrow>
               if r \<in> snd ` set (urls s) \<and> isActive u \<and> expiresAt u < now
               then Some (u\<lparr>isActive := False\<rparr>) else Some u)"
    by (auto simp: cleanupExpiredUrls_def cleanup_loop_heap deactivate_def split: option.splits)
  have post: "getUrlByShortCode ?s' t code = None
          \<and> r \<in> set (getAllUrls ?s') \<and> heap ?s' r = Some (u\<lparr>isActive := False\<rparr>)"
    if rec: "recordOf s code = Some r" and u: "heap s r = Some u"
      and exp: "isActive u" "expiresAt u < now" for code r u t
  proof -
    from rec obtain ident where id: "map_of (shortCodeToId s) code = Some ident"
      "map_of (urls s) ident = Some r"
      by (auto simp: recordOf_def split: option.splits)
    then have mem: "r \<in> snd ` set (urls s)"
      using map_of_SomeD [of "urls s" ident r] by force
    then have h': "heap ?s' r = Some (u\<lparr>isActive := False\<rparr>)"
      using hp u exp by simp
    have "getUrlByShortCode ?s' t code = None"
      using id h' by (simp add: getUrlByShortCode_def frame)
    moreover have "r \<in> set (getAllUrls ?s')"
      using mem by (simp add: getAllUrls_def set_array_sort frame)
    ultimately show ?thesis using h' by simp
  qed
  have p5: "\<forall>code r u t. recordOf s code = Some r \<and> heap s r = Some u
          \<and> isActive u \<and> expiresAt u < now \<longrightarrow>
          getUrlByShortCode ?s' t code = None
          \<and> r \<in> set (getAllUrls ?s')
          \<and> heap ?s' r = Some (u\<lparr>isActive := False\<rparr>)"
    using post by blast
  show ?thesis
    using frame(1) frame(2) frame(3) hp p5 by - (intro conjI, assumption+)
qed

theorem sweep_effect_witness:
  "fst (shortenUrl empty_registry env_a ''https://example.com/a'' None 1) = Inr 0
   \<and> getUrlByShortCode state_a 1001 ''ahovCJ'' = Some 0
   \<and> getUrlByShortCode (cleanupExpiredUrls state_a 62000) 62000 ''ahovCJ'' = None
   \<and> getAllUrls (cleanupExpiredUrls state_a 62000) = [0]
   \<and> map_option isActive (heap (cleanupExpiredUrls state_a 62000) 0) = Some False
   \<and> urls (cleanupExpiredUrls state_a 62000) = urls state_a
   \<and> shortCodeToId (cleanupExpiredUrls state_a 62000) = shortCodeToId state_a"
proof -
  have first: "fst (shortenUrl empty_registry env_a ''https://example.com/a'' None 1) = Inr 0"
    by (simp add: shortenUrl_def empty_registry_def activeUrls_def Let_def)
  show ?thesis
    using sweep_effect [of state_a 62000] first
    by (simp add: state_a_eval recordOf_def getUrlByShortCode_def getAllUrls_def array_sort_def)
qed

lemma dropWhile_all: "(\<forall>x \<in> set (dropWhile P xs). P x) \<longleftrightarrow> (\<forall>x \<in> set xs. P x)"
  by (induction xs) auto

lemma trim_empty_iff: "trim s = [] \<longleftrightarrow> (\<forall>c \<in> set s. whiteSpace c)"
proof -
  have "trim s = [] \<longleftrightarrow> (\<forall>x \<in> set (rev (dropWhile whiteSpace s)). whiteSpace x)"
    by (simp add: trim_def dropWhile_eq_Nil_conv)
  also have "\<dots> \<longleftrightarrow> (\<forall>c \<in> set s. whiteSpace c)"
    using dropWhile_all [of whiteSpace s] by simp
  finally show ?thesis .
qed

lemma whiteSpace_lower: "whiteSpace c \<Longrightarrow> lowerChar c = c"
  by (auto simp: whiteSpace_def lowerChar_def)

lemma matchesAt_head:
  "matchesAt (p # ps) s \<Longrightarrow> \<exists>c \<in> set s. lowerChar c = lowerChar p"
  by (cases s) auto

lemma testIgnoreCase_head:
  "testIgnoreCase (p # ps) s \<Longrightarrow> \<exists>c \<in> set s. lowerChar c = lowerChar p"
  by (induction s) (auto dest: matchesAt_head)

lemma malicious_not_blank:
  assumes "list_ex (\<lambda>pattern. testIgnoreCase pattern url) maliciousPatterns"
  shows "trim url \<noteq> []"
proof -
  from assms obtain p ps where "p \<in> set ''jdvf''" "testIgnoreCase (p # ps) url"
    by (auto simp: maliciousPatterns_def)
  then obtain c where c: "c \<in> set url" "lowerChar c = lowerChar p"
    using testIgnoreCase_head by blast
  have "\<not> whiteSpace c"
  proof
    assume "whiteSpace c"
    then have "c = lowerChar p" using c(2) whiteSpace_lower by simp
    with \<open>whiteSpace c\<close> \<open>p \<in> set ''jdvf''\<close> show False
      by (auto simp: whiteSpace_def lowerChar_def)
  qed
  with c(1) show ?thesis by (auto simp: trim_empty_iff)
qed

subsection \<open>URL validation\<close>

text \<open>
  C7, as the code has it. The test against the dangerous schemes stands inside the
  \<^verbatim>\<open>try\<close> block, after the URL constructor. For an input that matches one of the
  patterns and that the constructor accepts, \<open>validateUrl\<close> reports the
  malicious-content violation, after the protocol violation when the protocol is
  neither \<open>http:\<close> nor \<open>https:\<close>: both are reported together. For an input that
  matches and that the constructor rejects, the only violation reported is the
  invalid format.
\<close>

theorem validateUrl_malicious:
  assumes "list_ex (\<lambda>pattern. testIgnoreCase pattern url) maliciousPatterns"
  shows "(\<forall>protocol. urlCtor url = Some protocol \<longrightarrow>
            validateUrl urlCtor url =
              \<lparr>isValid = False,
               errors = (if protocol = ''http:'' \<or> protocol = ''https:'' then []
                         else [''URL must use HTTP or HTTPS protocol''])
                        @ [''URL contains potentially malicious content'']\<rparr>)
         \<and> (urlCtor url = None \<longrightarrow>
              validateUrl urlCtor url = \<lparr>isValid = False, errors = [''Invalid URL format'']\<rparr>)"
  using assms malicious_not_blank [OF assms] by (simp add: validateUrl_def)

theorem validateUrl_malicious_witness:
  "validateUrl urlProtocol ''javascript:alert(1)'' =
     \<lparr>isValid = False,
      errors = [''URL must use HTTP or HTTPS protocol'',
                ''URL contains potentially malicious content'']\<rparr>
   \<and> urlProtocol ''javascript:alert(1)'' = Some ''javascript:''
   \<and> validateUrl urlProtocol ''https://example.com/?next=DATA:text'' =
     \<lparr>isValid = False, errors = [''URL contains potentially malicious content'']\<rparr>
   \<and> urlProtocol ''https://example.com/?next=DATA:text'' = Some ''https:''"
proof -
  have p1: "urlProtocol ''javascript:alert(1)'' = Some ''javascript:''"
    by (simp add: urlProtocol_def c0ControlOrSpace_def tabOrNewline_def asciiAlpha_def
        schemeChar_def lowerChar_def)
  have p2: "urlProtocol ''https://example.com/?next=DATA:text'' = Some ''https:''"
    by (simp add: urlProtocol_def c0ControlOrSpace_def tabOrNewline_def asciiAlpha_def
        schemeChar_def lowerChar_def)
  have m1: "list_ex (\<lambda>pattern. testIgnoreCase pattern ''javascript:alert(1)'') maliciousPatterns"
    by (simp add: maliciousPatterns_def lowerChar_def)
  have m2: "list_ex (\<lambda>pattern. testIgnoreCase pattern ''https://example.com/?next=DATA:text'')
              maliciousPatterns"
    by (simp add: maliciousPatterns_def lowerChar_def)
  show ?thesis
    using validateUrl_malicious [OF m1, of urlProtocol] validateUrl_malicious [OF m2, of urlProtocol]
      p1 p2 by simp
qed

text \<open>
  C7 as stated says that the malicious-content violation is reported whether or not
  the input parses. The input below contains \<open>javascript:\<close> and is no absolute URL
  (its first word is followed by a space, not by a colon): the result names the
  invalid format alone.
\<close>

theorem validateUrl_malicious_counterexample:
  "list_ex (\<lambda>pattern. testIgnoreCase pattern ''see javascript:alert(1)'') maliciousPatterns
   \<and> urlProtocol ''see javascript:alert(1)'' = None
   \<and> validateUrl urlProtocol ''see javascript:alert(1)'' =
       \<lparr>isValid = False, errors = [''Invalid URL format'']\<rparr>"
proof -
  have m: "list_ex (\<lambda>pattern. testIgnoreCase pattern ''see javascript:alert(1)'') maliciousPatterns"
    by (simp add: maliciousPatterns_def lowerChar_def)
  have p: "urlProtocol ''see javascript:alert(1)'' = None"
    by (simp add: urlProtocol_def c0ControlOrSpace_def tabOrNewline_def asciiAlpha_def
        schemeChar_def lowerChar_def)
  have t: "trim ''see javascript:alert(1)'' \<noteq> []"
    by (simp add: trim_def whiteSpace_def)
  show ?thesis using m p t by (simp add: validateUrl_def)
qed

lemma reserved_lower: "\<forall>w \<in> set reservedWords. toLowerCase w = w"
  by (simp add: reservedWords_def toLowerCase_def lowerChar_def)

subsection \<open>Short-code validation\<close>

text \<open>
  C8, as the code has it. A code that is empty or made of white space only is valid,
  with no error. For any other code the errors are, in this order, the length error
  exactly when the length is outside 3 to 20, the character error exactly when some
  character is not a letter, digit, hyphen or underscore, and the reserved-word error
  exactly when the code equals a reserved word up to case; the code is valid exactly
  when none applies.
\<close>

theorem validateShortCode_rules:
  "((\<forall>c \<in> set code. whiteSpace c) \<longrightarrow>
      validateShortCode code = \<lparr>isValid = True, errors = []\<rparr>)
   \<and> ((\<exists>c \<in> set code. \<not> whiteSpace c) \<longrightarrow>
        errors (validateShortCode code) =
          (if length code < 3 \<or> 20 < length code
           then [''Short code must be between 3 and 20 characters''] else [])
          @ (if \<exists>c \<in> set code. \<not> codeChar c
             then [''Short code can only contain letters, numbers, hyphens, and underscores'']
             else [])
          @ (if \<exists>w \<in> set reservedWords. toLowerCase code = toLowerCase w
             then [''Short code cannot use reserved words''] else [])
        \<and> isValid (validateShortCode code) =
            (3 \<le> length code \<and> length code \<le> 20 \<and> (\<forall>c \<in> set code. codeChar c)
             \<and> (\<forall>w \<in> set reservedWords. toLowerCase code \<noteq> toLowerCase w)))"
proof (intro conjI impI)
  assume "\<forall>c \<in> set code. whiteSpace c"
  then have "trim code = []" by (simp add: trim_empty_iff)
  then show "validateShortCode code = \<lparr>isValid = True, errors = []\<rparr>"
    by (simp add: validateShortCode_def)
next
  assume ns: "\<exists>c \<in> set code. \<not> whiteSpace c"
  then have t: "trim code \<noteq> []" by (simp add: trim_empty_iff)
  from ns have ne: "code \<noteq> []" by auto
  have chars: "testCodeChars code \<longleftrightarrow> \<not> (\<exists>c \<in> set code. \<not> codeChar c)"
    using ne by (simp add: testCodeChars_def list_all_iff)
  have res: "toLowerCase code \<in> set reservedWords
             \<longleftrightarrow> (\<exists>w \<in> set reservedWords. toLowerCase code = toLowerCase w)"
    using reserved_lower by auto
  show "errors (validateShortCode code) =
          (if length code < 3 \<or> 20 < length code
           then [''Short code must be between 3 and 20 characters''] else [])
          @ (if \<exists>c \<in> set code. \<not> codeChar c
             then [''Short code can only contain letters, numbers, hyphens, and underscores'']
             else [])
          @ (if \<exists>w \<in> set reservedWords. toLowerCase code = toLowerCase w
             then [''Short code cannot use reserved words''] else [])"
    using t by (simp add: validateShortCode_def chars res del: set_simps)
  show "isValid (validateShortCode code) =
            (3 \<le> length code \<and> length code \<le> 20 \<and> (\<forall>c \<in> set code. codeChar c)
             \<and> (\<forall>w \<in> set reservedWords. toLowerCase code \<noteq> toLowerCase w))"
    using t by (auto simp add: validateShortCode_def chars res simp del: set_simps)
qed

theorem validateShortCode_rules_witness:
  "validateShortCode [] = \<lparr>isValid = True, errors = []\<rparr>
   \<and> \<not> isValid (validateShortCode ''ab'')
   \<and> isValid (validateShortCode ''abc'')
   \<and> isValid (validateShortCode ''abcdefghij0123456789'')
   \<and> \<not> isValid (validateShortCode ''abcdefghij0123456789_'')
   \<and> errors (validateShortCode ''a b'') =
       [''Short code can only contain letters, numbers, hyphens, and underscores'']
   \<and> errors (validateShortCode ''Admin'') = [''Short code cannot use reserved words'']"
  using validateShortCode_rules [of "[]"] validateShortCode_rules [of "''ab''"]
    validateShortCode_rules [of "''abc''"] validateShortCode_rules [of "''abcdefghij0123456789''"]
    validateShortCode_rules [of "''abcdefghij0123456789_''"]
    validateShortCode_rules [of "''a b''"] validateShortCode_rules [of "''Admin''"]
  by (simp add: whiteSpace_def codeChar_def reservedWords_def toLowerCase_def lowerChar_def)

text \<open>
  C8 as stated says that every non-empty code of a length outside 3 to 20, or with a
  character outside the class, gets a violation. The code made of one space is not
  empty, is too short and has a character outside the class, and it is valid.
\<close>

theorem validateShortCode_blank_counterexample:
  "'' '' \<noteq> [] \<and> length '' '' < 3 \<and> \<not> codeChar (CHR '' '')
   \<and> validateShortCode '' '' = \<lparr>isValid = True, errors = []\<rparr>"
  by (simp add: validateShortCode_def trim_def whiteSpace_def codeChar_def)

end
